theory Spec2Isabelle
  imports Complex_Main
begin

section \<open>MiditoBytebeat: note timeline to bytebeat formula, and its playback loop\<close>

text \<open>
  The development embeds \<^verbatim>\<open>generateBytebeat\<close> and \<^verbatim>\<open>pitchToCoeff\<close>
  (bytebeatUtils.ts) and the audio callback installed by \<^verbatim>\<open>startPlayback\<close>
  (the application component).

  Numbers. A JavaScript number is an IEEE double. The fields of a note and of the
  options that the compiler reads (durations, units, rests, periods) are \<open>real\<close>: the
  finite doubles. Every result of an addition, subtraction, multiplication or division
  of the source is rounded to the nearest double, ties to even, and is \<open>jsnum\<close>, which
  adds NaN and the two infinities to the finite values; so are pitches, coefficients,
  the time cursor, the thresholds and the values of the formula. Signed zeros are not
  told apart: nothing in the source divides by zero or prints a zero's sign.

  Text. \<^verbatim>\<open>generateBytebeat\<close> returns a string, and \<^verbatim>\<open>startPlayback\<close> turns that
  string into a function with \<^verbatim>\<open>new Function\<close>. The model keeps the structure of the
  string: one \<open>segment\<close> for each piece \<^verbatim>\<open>(t%P<N)?V:\<close> that is appended, in the
  order of appending, and \<open>eval_expression\<close> gives each piece the meaning JavaScript
  gives it. A number printed into the string reads back as the same number (also
  \<^verbatim>\<open>NaN\<close> and \<^verbatim>\<open>Infinity\<close>), so the fields of a segment are the numbers the
  source prints.
\<close>

subsection \<open>Doubles\<close>

datatype jsnum = Fin real | NaN | PosInf | NegInf

text \<open>
  Rounding to the nearest integer, a tie going to the even one; the exponent of the
  spacing of the doubles around \<open>x\<close> (53 significant bits, the spacing never below
  \<open>2 ^ - 1074\<close>); the nearest double if exponents had no upper limit; and the double
  the machine returns, an infinity from \<open>2 ^ 1024\<close> on.
\<close>

definition round_even :: "real \<Rightarrow> int" where
  "round_even x =
     (let f = \<lfloor>x\<rfloor>; d = x - of_int f
      in if d < 1 / 2 then f else if 1 / 2 < d then f + 1 else if even f then f else f + 1)"

definition grid_exp :: "real \<Rightarrow> int" where
  "grid_exp x = max (\<lfloor>log 2 \<bar>x\<bar>\<rfloor> - 52) (- 1074)"

definition nearest :: "real \<Rightarrow> real" where
  "nearest x =
     (if x = 0 then 0
      else of_int (round_even (x / 2 powr of_int (grid_exp x))) * 2 powr of_int (grid_exp x))"

definition fl :: "real \<Rightarrow> jsnum" where
  "fl x =
     (let r = nearest x
      in if 2 ^ 1024 \<le> \<bar>r\<bar> then (if 0 < r then PosInf else NegInf) else Fin r)"

fun js_neg :: "jsnum \<Rightarrow> jsnum" where
  "js_neg (Fin x) = Fin (- x)"
| "js_neg NaN = NaN"
| "js_neg PosInf = NegInf"
| "js_neg NegInf = PosInf"

fun js_add :: "jsnum \<Rightarrow> jsnum \<Rightarrow> jsnum" where
  "js_add (Fin x) (Fin y) = fl (x + y)"
| "js_add NaN b = NaN"
| "js_add a NaN = NaN"
| "js_add PosInf NegInf = NaN"
| "js_add NegInf PosInf = NaN"
| "js_add PosInf b = PosInf"
| "js_add a PosInf = PosInf"
| "js_add NegInf b = NegInf"
| "js_add a NegInf = NegInf"

definition js_sub :: "jsnum \<Rightarrow> jsnum \<Rightarrow> jsnum" where
  "js_sub a b = js_add a (js_neg b)"

fun js_mul :: "jsnum \<Rightarrow> jsnum \<Rightarrow> jsnum" where
  "js_mul (Fin x) (Fin y) = fl (x * y)"
| "js_mul NaN b = NaN"
| "js_mul a NaN = NaN"
| "js_mul PosInf (Fin y) = (if 0 < y then PosInf else if y < 0 then NegInf else NaN)"
| "js_mul NegInf (Fin y) = (if 0 < y then NegInf else if y < 0 then PosInf else NaN)"
| "js_mul (Fin x) PosInf = (if 0 < x then PosInf else if x < 0 then NegInf else NaN)"
| "js_mul (Fin x) NegInf = (if 0 < x then NegInf else if x < 0 then PosInf else NaN)"
| "js_mul PosInf PosInf = PosInf"
| "js_mul NegInf NegInf = PosInf"
| "js_mul PosInf NegInf = NegInf"
| "js_mul NegInf PosInf = NegInf"

fun Math_floor :: "jsnum \<Rightarrow> jsnum" where
  "Math_floor (Fin x) = Fin (of_int \<lfloor>x\<rfloor>)"
| "Math_floor NaN = NaN"
| "Math_floor PosInf = PosInf"
| "Math_floor NegInf = NegInf"

text \<open>\<^verbatim>\<open>r < N\<close> for a finite \<open>r\<close>, and \<^verbatim>\<open>a <= b\<close>.\<close>

fun js_less :: "real \<Rightarrow> jsnum \<Rightarrow> bool" where
  "js_less r (Fin n) = (r < n)"
| "js_less r NaN = False"
| "js_less r PosInf = True"
| "js_less r NegInf = False"

fun js_le :: "jsnum \<Rightarrow> jsnum \<Rightarrow> bool" where
  "js_le (Fin x) (Fin y) = (x \<le> y)"
| "js_le NaN b = False"
| "js_le a NaN = False"
| "js_le NegInf b = True"
| "js_le a PosInf = True"
| "js_le a NegInf = False"
| "js_le PosInf b = False"

text \<open>A value that rounding leaves alone: a double, NaN or an infinity.\<close>

fun stable :: "jsnum \<Rightarrow> bool" where
  "stable (Fin x) = (fl x = Fin x)"
| "stable NaN = True"
| "stable PosInf = True"
| "stable NegInf = True"

subsection \<open>Data model (types.ts)\<close>

record Note =
  note_id :: string
  pitch :: jsnum
  startTime :: real
  duration :: real
  coeff :: jsnum
  restAfter :: real

record ConverterOptions =
  baseUnit :: real
  restDuration :: real
  totalPeriod :: real
  basePitch :: real
  baseCoeff :: real

subsection \<open>The text of the formula\<close>

text \<open>
  \<open>Sounding c\<close> is the text \<^verbatim>\<open>(t*c)\<close> and \<open>Silence\<close> is the text \<^verbatim>\<open>0\<close>.
  A segment with fields \<open>P\<close>, \<open>N\<close>, \<open>V\<close> is the text \<^verbatim>\<open>(t%P<N)?V:\<close>.
  \<open>Zero\<close> is the string \<^verbatim>\<open>0\<close> returned for no notes; \<open>Chain segs\<close> is
  \<^verbatim>\<open>(\<close>, then the segments, then \<^verbatim>\<open>0)\<close>.
\<close>

datatype branch = Sounding jsnum | Silence

record segment =
  seg_period :: real
  seg_threshold :: jsnum
  seg_value :: branch

datatype expression = Zero | Chain "segment list"

subsection \<open>The compiler (bytebeatUtils.ts)\<close>

text \<open>
  \<^verbatim>\<open>x.toFixed(2)\<close> picks the integer \<open>n\<close> with \<open>n / 100\<close> nearest to \<open>\<bar>x\<bar>\<close>, the
  larger one on a tie, and prints it with the sign of \<open>x\<close>; from \<open>10^21\<close> on it prints
  \<open>x\<close> itself. It works on the exact value of the double. \<^verbatim>\<open>parseFloat\<close> reads the
  decimal back as the nearest double. NaN and the infinities print as their names and
  read back as themselves.
\<close>

definition toFixed2 :: "real \<Rightarrow> real" where
  "toFixed2 x =
     (if 10 ^ 21 \<le> \<bar>x\<bar> then x
      else sgn x * (of_int \<lfloor>\<bar>x\<bar> * 100 + 1 / 2\<rfloor> / 100))"

fun parseFloat_toFixed2 :: "jsnum \<Rightarrow> jsnum" where
  "parseFloat_toFixed2 (Fin x) = fl (toFixed2 x)"
| "parseFloat_toFixed2 NaN = NaN"
| "parseFloat_toFixed2 PosInf = PosInf"
| "parseFloat_toFixed2 NegInf = NegInf"

text \<open>
  The body of the \<^verbatim>\<open>forEach\<close> callback. The state is the pair of the two variables
  the callback assigns, \<^verbatim>\<open>expression\<close> (its segments so far) and
  \<^verbatim>\<open>accumulatedTime\<close>; \<open>len\<close> is \<^verbatim>\<open>notes.length\<close>. The product
  \<^verbatim>\<open>note.duration * options.baseUnit\<close> is computed twice in the source, with the same
  result.
\<close>

definition emit_note ::
  "ConverterOptions \<Rightarrow> nat \<Rightarrow> Note \<times> nat \<Rightarrow> segment list \<times> jsnum \<Rightarrow> segment list \<times> jsnum" where
  "emit_note options len ni st =
     (let (note, index) = ni;
          (expression, accumulatedTime) = st;
          noteEndTime =
            js_sub (js_add accumulatedTime (js_mul (Fin (duration note)) (Fin (baseUnit options))))
                   (Fin (restAfter note));
          expression = expression @
            [\<lparr>seg_period = totalPeriod options, seg_threshold = Math_floor noteEndTime,
              seg_value = Sounding (parseFloat_toFixed2 (coeff note))\<rparr>];
          accumulatedTime =
            js_add accumulatedTime (js_mul (Fin (duration note)) (Fin (baseUnit options)));
          expression =
            (if restAfter note > 0 \<and> int index < int len - 1
             then expression @
               [\<lparr>seg_period = totalPeriod options, seg_threshold = Math_floor accumulatedTime,
                 seg_value = Silence\<rparr>]
             else expression)
      in (expression, accumulatedTime))"

definition generateBytebeat :: "Note list \<Rightarrow> ConverterOptions \<Rightarrow> expression" where
  "generateBytebeat notes options =
     (if length notes = 0 then Zero
      else Chain (fst (fold (emit_note options (length notes))
                            (zip notes [0 ..< length notes]) ([], Fin 0))))"

text \<open>
  \<^verbatim>\<open>Math.pow(2, e)\<close>. The language leaves the accuracy of \<^verbatim>\<open>Math.pow\<close> to the
  engine; the model takes the correctly rounded power. The results below use it at the
  exponents 0 and 1 only, where the power is 1 and 2 in every engine.
\<close>

fun Math_pow2 :: "jsnum \<Rightarrow> jsnum" where
  "Math_pow2 (Fin e) = fl (2 powr e)"
| "Math_pow2 NaN = NaN"
| "Math_pow2 PosInf = PosInf"
| "Math_pow2 NegInf = Fin 0"

text \<open>The division \<^verbatim>\<open>x / 12\<close>.\<close>

fun js_div_12 :: "jsnum \<Rightarrow> jsnum" where
  "js_div_12 (Fin x) = fl (x / 12)"
| "js_div_12 NaN = NaN"
| "js_div_12 PosInf = PosInf"
| "js_div_12 NegInf = NegInf"

definition pitchToCoeff :: "jsnum \<Rightarrow> jsnum \<Rightarrow> jsnum \<Rightarrow> jsnum" where
  "pitchToCoeff pitch' basePitch' baseCoeff' =
     js_mul baseCoeff' (Math_pow2 (js_div_12 (js_sub pitch' basePitch')))"

subsection \<open>The meaning of the formula\<close>

text \<open>
  \<^verbatim>\<open>a % b\<close> on numbers: the remainder has the sign of \<open>a\<close>, the quotient is cut
  towards zero, the result is exact, and \<^verbatim>\<open>a % 0\<close> is NaN. A comparison with NaN is
  false, so the guard \<^verbatim>\<open>t%P<N\<close> is false when \<open>P = 0\<close> or \<open>N\<close> is NaN.
\<close>

definition js_trunc :: "real \<Rightarrow> int" where
  "js_trunc x = (if x < 0 then \<lceil>x\<rceil> else \<lfloor>x\<rfloor>)"

definition js_rem :: "real \<Rightarrow> real \<Rightarrow> real" where
  "js_rem a b = a - b * of_int (js_trunc (a / b))"

definition guard_holds :: "segment \<Rightarrow> int \<Rightarrow> bool" where
  "guard_holds s t =
     (seg_period s \<noteq> 0 \<and> js_less (js_rem (of_int t) (seg_period s)) (seg_threshold s))"

text \<open>\<^verbatim>\<open>t*c\<close> for the integer \<open>t\<close> the callback passes.\<close>

definition js_times :: "int \<Rightarrow> jsnum \<Rightarrow> jsnum" where
  "js_times t c = js_mul (Fin (of_int t)) c"

fun branch_value :: "branch \<Rightarrow> int \<Rightarrow> jsnum" where
  "branch_value (Sounding c) t = js_times t c"
| "branch_value Silence t = Fin 0"

text \<open>The nested conditional \<^verbatim>\<open>c1 ? v1 : c2 ? v2 : ... 0\<close>.\<close>

fun eval_chain :: "segment list \<Rightarrow> int \<Rightarrow> jsnum" where
  "eval_chain [] t = Fin 0"
| "eval_chain (s # segs) t =
     (if guard_holds s t then branch_value (seg_value s) t else eval_chain segs t)"

fun eval_expression :: "expression \<Rightarrow> int \<Rightarrow> jsnum" where
  "eval_expression Zero t = Fin 0"
| "eval_expression (Chain segs) t = eval_chain segs t"

subsection \<open>The audio callback (application component)\<close>

text \<open>
  \<^verbatim>\<open>val & 0xFF\<close> converts \<open>val\<close> to a 32-bit integer first: NaN and the infinities
  become 0, any other number is cut towards zero and wrapped into
  \<open>-2^31 ..< 2^31\<close>.
\<close>

fun toInt32 :: "jsnum \<Rightarrow> int" where
  "toInt32 (Fin x) =
     (let m = js_trunc x mod 2 ^ 32 in if 2 ^ 31 \<le> m then m - 2 ^ 32 else m)"
| "toInt32 NaN = 0"
| "toInt32 PosInf = 0"
| "toInt32 NegInf = 0"

definition rawByte :: "jsnum \<Rightarrow> int" where
  "rawByte val = and (toInt32 val) 255"

definition sample_of :: "jsnum \<Rightarrow> real" where
  "sample_of val = of_int (rawByte val) / 128 - 1"

text \<open>
  What the callback closes over: the compiled function, the step \<^verbatim>\<open>ratio\<close>, the
  period \<^verbatim>\<open>options.totalPeriod\<close>, and the mutable cell \<^verbatim>\<open>virtualTRef.current\<close>.
\<close>

record playback =
  func :: expression
  ratio :: real
  period :: real
  virtualT :: real

definition startPlayback :: "expression \<Rightarrow> ConverterOptions \<Rightarrow> real \<Rightarrow> playback" where
  "startPlayback expression options sampleRate =
     \<lparr>func = expression, ratio = 8000 / sampleRate, period = totalPeriod options,
      virtualT = 0\<rparr>"


text \<open>One turn of the loop in \<^verbatim>\<open>onaudioprocess\<close>: the sample written, and the new state.\<close>

definition sample_time :: "playback \<Rightarrow> int" where
  "sample_time st = \<lfloor>virtualT st\<rfloor>"

definition renderSample :: "playback \<Rightarrow> real \<times> playback" where
  "renderSample st =
     (let val = eval_expression (func st) (sample_time st);
          out = sample_of val;
          v = virtualT st + ratio st;
          v = (if period st \<le> v then 0 else v)
      in (out, st\<lparr>virtualT := v\<rparr>))"

text \<open>The loop over a buffer of \<open>n\<close> frames.\<close>

fun onaudioprocess :: "nat \<Rightarrow> playback \<Rightarrow> real list \<times> playback" where
  "onaudioprocess 0 st = ([], st)"
| "onaudioprocess (Suc n) st =
     (let (out, st') = renderSample st;
          (outs, st'') = onaudioprocess n st'
      in (out # outs, st''))"

text \<open>The state after a buffer of \<open>n\<close> frames.\<close>

definition after_frames :: "nat \<Rightarrow> playback \<Rightarrow> playback" where
  "after_frames n st = snd (onaudioprocess n st)"

text \<open>
  The application derives each coefficient from the pitch before compiling
  (\<^verbatim>\<open>transposedNotes\<close>).
\<close>

definition transposedNotes :: "Note list \<Rightarrow> real \<Rightarrow> ConverterOptions \<Rightarrow> Note list" where
  "transposedNotes ns transpose' options =
     map (\<lambda>n. n\<lparr>pitch := js_add (pitch n) (Fin transpose'),
                 coeff := pitchToCoeff (js_add (pitch n) (Fin transpose'))
                            (Fin (basePitch options)) (Fin (baseCoeff options))\<rparr>) ns"

subsection \<open>The compiler as the specification words it\<close>

text \<open>
  The specification describes the compiler as a walk over the notes with a cursor: a
  sounding segment with threshold \<open>\<lfloor>cursor + duration * baseUnit - restAfter\<rfloor>\<close> and
  value \<open>t * coeff\<close>, then the cursor moves by \<open>duration * baseUnit\<close>, then a silence
  segment with threshold \<open>\<lfloor>cursor\<rfloor>\<close> if \<open>restAfter > 0\<close> and the note is not the last.
  \<open>spec_segments\<close> is that description, in the arithmetic of the language; \<open>round_coeff\<close>
  is the rounding the source applies to the coefficient on the way.
\<close>

definition unit_of :: "ConverterOptions \<Rightarrow> Note \<Rightarrow> jsnum" where
  "unit_of options n = js_mul (Fin (duration n)) (Fin (baseUnit options))"

fun spec_segments :: "ConverterOptions \<Rightarrow> jsnum \<Rightarrow> Note list \<Rightarrow> segment list" where
  "spec_segments options cursor [] = []"
| "spec_segments options cursor (n # rest) =
     \<lparr>seg_period = totalPeriod options,
      seg_threshold =
        Math_floor (js_sub (js_add cursor (unit_of options n)) (Fin (restAfter n))),
      seg_value = Sounding (coeff n)\<rparr>
     # (if restAfter n > 0 \<and> rest \<noteq> []
        then [\<lparr>seg_period = totalPeriod options,
                seg_threshold = Math_floor (js_add cursor (unit_of options n)),
                seg_value = Silence\<rparr>]
        else [])
     @ spec_segments options (js_add cursor (unit_of options n)) rest"

definition round_coeff :: "Note \<Rightarrow> Note" where
  "round_coeff n = n\<lparr>coeff := parseFloat_toFixed2 (coeff n)\<rparr>"


fun cursor_after :: "ConverterOptions \<Rightarrow> jsnum \<Rightarrow> Note list \<Rightarrow> jsnum" where
  "cursor_after options cursor [] = cursor"
| "cursor_after options cursor (n # rest) =
     cursor_after options (js_add cursor (unit_of options n)) rest"

fun is_finite :: "jsnum \<Rightarrow> bool" where
  "is_finite (Fin x) = True"
| "is_finite NaN = False"
| "is_finite PosInf = False"
| "is_finite NegInf = False"

text \<open>
  The thresholds of an expression in order; the running sums of a list, exact and in
  doubles; and the exact products \<open>duration * baseUnit\<close>.
\<close>

fun thresholds :: "expression \<Rightarrow> jsnum list" where
  "thresholds Zero = []"
| "thresholds (Chain segs) = map seg_threshold segs"

fun cumulative :: "real \<Rightarrow> real list \<Rightarrow> real list" where
  "cumulative c [] = []"
| "cumulative c (x # xs) = (c + x) # cumulative (c + x) xs"

fun js_cumulative :: "jsnum \<Rightarrow> jsnum list \<Rightarrow> jsnum list" where
  "js_cumulative c [] = []"
| "js_cumulative c (x # xs) = js_add c x # js_cumulative (js_add c x) xs"

definition sounding_units :: "ConverterOptions \<Rightarrow> Note list \<Rightarrow> real list" where
  "sounding_units options ns = map (\<lambda>n. duration n * baseUnit options) ns"

subsection \<open>Inputs used in the examples\<close>

definition mk_note :: "real \<Rightarrow> real \<Rightarrow> jsnum \<Rightarrow> real \<Rightarrow> Note" where
  "mk_note p d c r =
     \<lparr>note_id = [], pitch = Fin p, startTime = 0, duration = d, coeff = c, restAfter = r\<rparr>"

definition mk_options :: "real \<Rightarrow> real \<Rightarrow> ConverterOptions" where
  "mk_options u P =
     \<lparr>baseUnit = u, restDuration = 200, totalPeriod = P, basePitch = 60, baseCoeff = 1\<rparr>"

definition mk_segment :: "real \<Rightarrow> int \<Rightarrow> branch \<Rightarrow> segment" where
  "mk_segment P N V = \<lparr>seg_period = P, seg_threshold = Fin (of_int N), seg_value = V\<rparr>"

text \<open>
  The three notes of the end-to-end scenario, given by pitch; the application fills in
  the coefficients.
\<close>

definition scenario_notes :: "Note list" where
  "scenario_notes =
     transposedNotes [mk_note 60 1 NaN 0, mk_note 72 1 NaN 0, mk_note 60 1 NaN 0] 0
       (mk_options 1000 3000)"

section \<open>Properties\<close>

subsection \<open>Rounding to the nearest double\<close>

lemma round_even_of_int [simp]: "round_even (of_int n) = n"
  by (simp add: round_even_def)

lemma round_even_lower: "\<lfloor>x\<rfloor> \<le> round_even x"
  by (simp add: round_even_def Let_def)

lemma round_even_upper: "round_even x \<le> \<lfloor>x\<rfloor> + 1"
  by (simp add: round_even_def Let_def)

lemma round_even_mono:
  assumes "x \<le> y"
  shows "round_even x \<le> round_even y"
proof (cases "\<lfloor>x\<rfloor> = \<lfloor>y\<rfloor>")
  case True
  have "x - of_int \<lfloor>y\<rfloor> \<le> y - of_int \<lfloor>y\<rfloor>"
    using assms by simp
  then show ?thesis
    unfolding round_even_def Let_def True by auto
next
  case False
  have "\<lfloor>x\<rfloor> \<le> \<lfloor>y\<rfloor>"
    using assms by (rule floor_mono)
  then have "\<lfloor>x\<rfloor> + 1 \<le> \<lfloor>y\<rfloor>"
    using False by simp
  then show ?thesis
    using round_even_upper [of x] round_even_lower [of y] by linarith
qed

lemma round_even_ge: "of_int n \<le> x \<Longrightarrow> n \<le> round_even x"
  using round_even_mono [of "of_int n" x] by simp

lemma round_even_le: "x \<le> of_int n \<Longrightarrow> round_even x \<le> n"
  using round_even_mono [of x "of_int n"] by simp

lemma round_even_minus: "round_even (- x) = - round_even x"
proof (cases "x \<in> \<int>")
  case True
  then obtain n where "x = of_int n"
    by (auto elim: Ints_cases)
  then have "- x = of_int (- n)"
    by simp
  then show ?thesis
    using \<open>x = of_int n\<close> by (simp only: round_even_of_int)
next
  case False
  then have "x \<noteq> of_int \<lfloor>x\<rfloor>"
    by (metis Ints_of_int)
  then have fl: "\<lfloor>- x\<rfloor> = - \<lfloor>x\<rfloor> - 1"
    by (simp add: floor_minus ceiling_altdef)
  have d: "- x - of_int (- \<lfloor>x\<rfloor> - 1) = 1 - (x - of_int \<lfloor>x\<rfloor>)"
    by simp
  have ev: "even (- \<lfloor>x\<rfloor> - 1) = odd \<lfloor>x\<rfloor>"
    by simp
  show ?thesis
    unfolding round_even_def Let_def fl d ev by auto
qed

lemma grid_exp_minus [simp]: "grid_exp (- x) = grid_exp x"
  by (simp add: grid_exp_def)

lemma grid_exp_lower: "- 1074 \<le> grid_exp x"
  by (simp add: grid_exp_def)

lemma grid_exp_mono:
  assumes "0 < x" "x \<le> y"
  shows "grid_exp x \<le> grid_exp y"
proof -
  have "log 2 x \<le> log 2 y"
    using assms by (intro log_mono) simp_all
  then have "\<lfloor>log 2 x\<rfloor> \<le> \<lfloor>log 2 y\<rfloor>"
    by (rule floor_mono)
  then show ?thesis
    using assms by (simp add: grid_exp_def)
qed

lemma below_binade:
  assumes "x \<noteq> 0"
  shows "\<bar>x\<bar> < 2 powr of_int (grid_exp x + 53)"
proof -
  have pos: "0 < \<bar>x\<bar>"
    using assms by simp
  have "log 2 \<bar>x\<bar> < of_int (\<lfloor>log 2 \<bar>x\<bar>\<rfloor> + 1)"
    by linarith
  moreover have "\<lfloor>log 2 \<bar>x\<bar>\<rfloor> + 1 \<le> grid_exp x + 53"
    by (simp add: grid_exp_def)
  ultimately have "log 2 \<bar>x\<bar> < of_int (grid_exp x + 53)"
    by (smt (verit) of_int_le_iff)
  then show ?thesis
    using pos by (simp add: log_less_iff)
qed

lemma above_binade:
  assumes "x \<noteq> 0" "- 1074 < grid_exp x"
  shows "2 powr of_int (grid_exp x + 52) \<le> \<bar>x\<bar>"
proof -
  have pos: "0 < \<bar>x\<bar>"
    using assms by simp
  have "grid_exp x = \<lfloor>log 2 \<bar>x\<bar>\<rfloor> - 52"
    using assms(2) by (simp add: grid_exp_def max_def split: if_splits)
  then have "of_int (grid_exp x + 52) \<le> log 2 \<bar>x\<bar>"
    by simp
  then show ?thesis
    using pos by (simp add: le_log_iff)
qed

lemma nearest_0 [simp]: "nearest 0 = 0"
  by (simp add: nearest_def)

lemma nearest_minus: "nearest (- x) = - nearest x"
  by (simp add: nearest_def round_even_minus)

lemma nearest_nonneg:
  assumes "0 \<le> x"
  shows "0 \<le> nearest x"
proof -
  have "0 \<le> x / 2 powr of_int (grid_exp x)"
    using assms by simp
  then have "0 \<le> round_even (x / 2 powr of_int (grid_exp x))"
    using round_even_ge [of 0] by simp
  then show ?thesis
    by (simp add: nearest_def)
qed

lemma nearest_mono_pos:
  assumes "0 < x" "x \<le> y"
  shows "nearest x \<le> nearest y"
proof -
  let ?E1 = "grid_exp x" and ?E2 = "grid_exp y"
  have y: "0 < y" "y \<noteq> 0" "x \<noteq> 0"
    using assms by simp_all
  have le: "?E1 \<le> ?E2"
    using assms by (rule grid_exp_mono)
  show ?thesis
  proof (cases "?E1 = ?E2")
    case True
    have "x / 2 powr of_int ?E2 \<le> y / 2 powr of_int ?E2"
      using assms(2) by (simp add: divide_right_mono)
    then have "round_even (x / 2 powr of_int ?E2) \<le> round_even (y / 2 powr of_int ?E2)"
      by (rule round_even_mono)
    then have "real_of_int (round_even (x / 2 powr of_int ?E2)) * 2 powr of_int ?E2
        \<le> real_of_int (round_even (y / 2 powr of_int ?E2)) * 2 powr of_int ?E2"
      by (intro mult_right_mono) simp_all
    then show ?thesis
      using y by (simp add: nearest_def True)
  next
    case False
    then have lt: "?E1 + 1 \<le> ?E2"
      using le by simp
    then have "- 1074 < ?E2"
      using grid_exp_lower [of x] by linarith
    from above_binade [OF y(2) this]
    have "2 powr of_int (?E2 + 52) \<le> y"
      using y(1) by simp
    then have "2 powr of_int (?E2 + 52) / 2 powr of_int ?E2 \<le> y / 2 powr of_int ?E2"
      by (simp add: divide_right_mono)
    moreover have "2 powr of_int (?E2 + 52) / 2 powr of_int ?E2 = (2::real) ^ 52"
      by (simp add: powr_add powr_realpow [of 2 52, simplified])
    ultimately have "real_of_int (2 ^ 52) \<le> y / 2 powr of_int ?E2"
      by simp
    then have "2 ^ 52 \<le> round_even (y / 2 powr of_int ?E2)"
      by (rule round_even_ge)
    then have "(2::real) ^ 52 \<le> of_int (round_even (y / 2 powr of_int ?E2))"
      by (metis of_int_le_iff of_int_numeral of_int_power)
    then have "2 ^ 52 * 2 powr of_int ?E2
        \<le> real_of_int (round_even (y / 2 powr of_int ?E2)) * 2 powr of_int ?E2"
      by (intro mult_right_mono) simp_all
    then have hi: "2 ^ 52 * 2 powr of_int ?E2 \<le> nearest y"
      using y by (simp add: nearest_def)
    from below_binade [OF y(3)]
    have "x < 2 powr of_int (?E1 + 53)"
      using assms(1) by simp
    then have "x / 2 powr of_int ?E1 < 2 powr of_int (?E1 + 53) / 2 powr of_int ?E1"
      by (simp add: divide_strict_right_mono)
    moreover have "2 powr of_int (?E1 + 53) / 2 powr of_int ?E1 = (2::real) ^ 53"
      by (simp add: powr_add powr_realpow [of 2 53, simplified])
    ultimately have "x / 2 powr of_int ?E1 \<le> real_of_int (2 ^ 53)"
      by simp
    then have "round_even (x / 2 powr of_int ?E1) \<le> 2 ^ 53"
      by (rule round_even_le)
    then have "of_int (round_even (x / 2 powr of_int ?E1)) \<le> (2::real) ^ 53"
      by (metis of_int_le_iff of_int_numeral of_int_power)
    then have "real_of_int (round_even (x / 2 powr of_int ?E1)) * 2 powr of_int ?E1
        \<le> 2 ^ 53 * 2 powr of_int ?E1"
      by (intro mult_right_mono) simp_all
    then have lo: "nearest x \<le> 2 ^ 53 * 2 powr of_int ?E1"
      using y by (simp add: nearest_def)
    have "(2::real) ^ 53 * 2 powr of_int ?E1 = 2 ^ 52 * 2 powr of_int (?E1 + 1)"
      by (simp add: powr_add)
    also have "\<dots> \<le> 2 ^ 52 * 2 powr of_int ?E2"
      using lt by (intro mult_left_mono) simp_all
    finally show ?thesis
      using lo hi by linarith
  qed
qed

lemma nearest_mono:
  assumes "x \<le> y"
  shows "nearest x \<le> nearest y"
proof -
  consider "0 < x" | "x \<le> 0" "0 \<le> y" | "y < 0"
    using assms by linarith
  then show ?thesis
  proof cases
    case 1
    then show ?thesis
      using assms by (rule nearest_mono_pos)
  next
    case 2
    have "0 \<le> nearest (- x)"
      using 2(1) by (intro nearest_nonneg) simp
    then have "nearest x \<le> 0"
      by (simp add: nearest_minus)
    then show ?thesis
      using nearest_nonneg [OF 2(2)] by linarith
  next
    case 3
    have "nearest (- y) \<le> nearest (- x)"
      using 3 assms by (intro nearest_mono_pos) simp_all
    then show ?thesis
      by (simp add: nearest_minus)
  qed
qed

lemma nearest_representable:
  assumes m: "\<bar>m\<bar> < 2 ^ 53" and e: "- 1074 \<le> e"
  shows "nearest (of_int m * 2 powr of_int e) = of_int m * 2 powr of_int e"
proof (cases "m = 0")
  case True
  then show ?thesis by simp
next
  case False
  define x :: real where "x = of_int m * 2 powr of_int e"
  define E where "E = grid_exp x"
  define p :: real where "p = 2 powr of_int E"
  have x0: "x \<noteq> 0"
    using False by (simp add: x_def)
  have p0: "0 < p"
    by (simp add: p_def)
  have "\<bar>real_of_int m\<bar> < 2 ^ 53"
    using m by (metis of_int_abs of_int_less_iff of_int_numeral of_int_power)
  then have "\<bar>x\<bar> < 2 ^ 53 * 2 powr of_int e"
    by (simp add: x_def abs_mult)
  also have "\<dots> = 2 powr of_int (e + 53)"
    by (simp add: powr_add powr_realpow [of 2 53, simplified])
  finally have "log 2 \<bar>x\<bar> < of_int (e + 53)"
    using x0 by (simp add: log_less_iff)
  then have "\<lfloor>log 2 \<bar>x\<bar>\<rfloor> < e + 53"
    by (simp only: floor_less_iff)
  then have "E \<le> e"
    using e by (simp add: E_def grid_exp_def)
  then obtain k where k: "e = E + int k"
    by (metis zle_iff_zadd)
  have "(2::real) powr of_int e = 2 ^ k * p"
    by (simp add: k p_def powr_add powr_realpow)
  then have "x = of_int (m * 2 ^ k) * p"
    by (simp add: x_def)
  then have q: "x / p = of_int (m * 2 ^ k)" and qb: "of_int (m * 2 ^ k) * p = x"
    using p0 by simp_all
  have "round_even (x / p) = m * 2 ^ k"
    unfolding q by (rule round_even_of_int)
  then have "nearest x = of_int (m * 2 ^ k) * p"
    using x0 by (simp only: nearest_def if_False p_def E_def)
  then have "nearest x = x"
    by (simp only: qb)
  then show ?thesis
    by (simp only: x_def)
qed

lemma nearest_grid:
  "\<exists>n E. nearest x = of_int n * 2 powr of_int E \<and> \<bar>n\<bar> \<le> 2 ^ 53 \<and> - 1074 \<le> E"
proof (cases "x = 0")
  case True
  have "nearest x = of_int 0 * 2 powr of_int 0"
    using True by simp
  then show ?thesis
    by (metis abs_zero zero_le_numeral zero_le_power neg_numeral_le_zero)
next
  case False
  let ?E = "grid_exp x"
  let ?q = "x / 2 powr of_int ?E"
  have "\<bar>x\<bar> / 2 powr of_int ?E < 2 powr of_int (?E + 53) / 2 powr of_int ?E"
    using below_binade [OF False] by (simp add: divide_strict_right_mono)
  moreover have "2 powr of_int (?E + 53) / 2 powr of_int ?E = (2::real) ^ 53"
    by (simp add: powr_add powr_realpow [of 2 53, simplified])
  ultimately have "\<bar>x\<bar> / 2 powr of_int ?E < 2 ^ 53"
    by simp
  moreover have "\<bar>?q\<bar> = \<bar>x\<bar> / 2 powr of_int ?E"
    by simp
  moreover have "real_of_int (2 ^ 53) = 2 ^ 53"
    by simp
  ultimately have "\<bar>?q\<bar> < real_of_int (2 ^ 53)"
    by (simp only:)
  then have "?q \<le> real_of_int (2 ^ 53)" "real_of_int (- (2 ^ 53)) \<le> ?q"
    unfolding of_int_minus by linarith+
  then have "round_even ?q \<le> 2 ^ 53" "- (2 ^ 53) \<le> round_even ?q"
    by (auto intro: round_even_le round_even_ge)
  then have "\<bar>round_even ?q\<bar> \<le> 2 ^ 53"
    by simp
  moreover have "nearest x = of_int (round_even ?q) * 2 powr of_int ?E"
    using False by (simp add: nearest_def)
  ultimately show ?thesis
    using grid_exp_lower [of x] by blast
qed

lemma nearest_grid_fixed:
  assumes "\<bar>n\<bar> \<le> 2 ^ 53" "- 1074 \<le> E"
  shows "nearest (of_int n * 2 powr of_int E) = of_int n * 2 powr of_int E"
proof (cases "\<bar>n\<bar> < 2 ^ 53")
  case True
  then show ?thesis
    using assms(2) by (rule nearest_representable)
next
  case False
  then have "\<bar>n\<bar> = 2 ^ 53"
    using assms(1) by simp
  then consider "n = 2 ^ 53" | "n = - (2 ^ 53)"
    by linarith
  then obtain s :: int where s: "n = s * 2 ^ 53" "\<bar>s\<bar> = 1"
    by cases auto
  have "real_of_int n * 2 powr of_int E = of_int (s * 2 ^ 52) * 2 powr of_int (E + 1)"
    by (simp add: s(1) powr_add)
  moreover have "\<bar>s * 2 ^ 52\<bar> < (2::int) ^ 53"
    using s(2) by (simp add: abs_mult)
  moreover have "- 1074 \<le> E + 1"
    using assms(2) by simp
  ultimately show ?thesis
    using nearest_representable [of "s * 2 ^ 52" "E + 1"] by simp
qed

lemma nearest_idem [simp]: "nearest (nearest x) = nearest x"
  using nearest_grid [of x] nearest_grid_fixed by metis

lemma nearest_of_int:
  assumes "\<bar>k\<bar> \<le> 2 ^ 53"
  shows "nearest (of_int k) = of_int k"
  using nearest_grid_fixed [of k 0] assms by simp

lemma fl_cases:
  obtains (fin) "fl x = Fin (nearest x)" "\<bar>nearest x\<bar> < 2 ^ 1024"
  | (pos) "fl x = PosInf" "2 ^ 1024 \<le> nearest x"
  | (neg) "fl x = NegInf" "nearest x \<le> - (2 ^ 1024)"
proof (cases "2 ^ 1024 \<le> \<bar>nearest x\<bar>")
  case False
  then show ?thesis
    using fin by (simp add: fl_def)
next
  case True
  show ?thesis
  proof (cases "0 < nearest x")
    case True
    then show ?thesis
      using \<open>2 ^ 1024 \<le> \<bar>nearest x\<bar>\<close> pos by (simp add: fl_def)
  next
    case False
    then show ?thesis
      using \<open>2 ^ 1024 \<le> \<bar>nearest x\<bar>\<close> neg by (simp add: fl_def)
  qed
qed

lemma fl_exact: "nearest x = x \<Longrightarrow> \<bar>x\<bar> < 2 ^ 1024 \<Longrightarrow> fl x = Fin x"
  by (simp add: fl_def)

lemma fl_Fin_iff: "fl x = Fin y \<longleftrightarrow> nearest x = y \<and> \<bar>y\<bar> < 2 ^ 1024"
  by (auto simp: fl_def Let_def)

lemma stable_fl [simp]: "stable (fl x)"
  by (cases x rule: fl_cases) (simp_all add: fl_def)

lemma small_in_range:
  fixes x :: real
  assumes "\<bar>x\<bar> \<le> 2 ^ 53"
  shows "\<bar>x\<bar> < 2 ^ 1024"
proof -
  have "(2::real) ^ 53 < 2 ^ 1024"
    by (rule power_strict_increasing) simp_all
  then show ?thesis
    using assms by linarith
qed

lemma fl_of_int:
  assumes "\<bar>k\<bar> \<le> 2 ^ 53"
  shows "fl (of_int k) = Fin (of_int k)"
proof -
  have "\<bar>real_of_int k\<bar> \<le> 2 ^ 53"
    using assms by (metis of_int_abs of_int_le_iff of_int_numeral of_int_power)
  then show ?thesis
    using nearest_of_int [OF assms] by (intro fl_exact small_in_range)
qed

lemma fl_dyadic:
  assumes "\<bar>m\<bar> \<le> 2 ^ 53" "j \<le> 1074"
  shows "fl (of_int m / 2 ^ j) = Fin (of_int m / 2 ^ j)"
proof -
  have eq: "real_of_int m / 2 ^ j = of_int m * 2 powr of_int (- int j)"
    by (simp add: powr_minus powr_realpow divide_inverse)
  have a: "nearest (real_of_int m / 2 ^ j) = real_of_int m / 2 ^ j"
    unfolding eq using assms by (intro nearest_grid_fixed) simp_all
  have "\<bar>real_of_int m\<bar> \<le> 2 ^ 53"
    using assms(1) by (metis of_int_abs of_int_le_iff of_int_numeral of_int_power)
  moreover have "\<bar>real_of_int m / 2 ^ j\<bar> \<le> \<bar>real_of_int m\<bar>"
  proof -
    have "(1::real) \<le> 2 ^ j"
      by simp
    then have "\<bar>real_of_int m\<bar> * 1 \<le> \<bar>real_of_int m\<bar> * 2 ^ j"
      by (intro mult_left_mono) simp_all
    then show ?thesis
      by (simp add: divide_le_eq)
  qed
  ultimately have "\<bar>real_of_int m / 2 ^ j\<bar> \<le> 2 ^ 53"
    by linarith
  then show ?thesis
    using a by (intro fl_exact small_in_range)
qed

lemma fl_0 [simp]: "fl 0 = Fin 0"
  using fl_of_int [of 0] by simp

lemma fl_1 [simp]: "fl 1 = Fin 1"
  using fl_of_int [of 1] by simp

lemma fl_numeral:
  "(numeral n :: int) \<le> 9007199254740992 \<Longrightarrow> fl (numeral n) = Fin (numeral n)"
  using fl_of_int [of "numeral n"] by simp

lemma fl_neg_numeral:
  "(numeral n :: int) \<le> 9007199254740992 \<Longrightarrow> fl (- numeral n) = Fin (- numeral n)"
  using fl_of_int [of "- numeral n"] by simp

lemma fl_mono:
  assumes "x \<le> y"
  shows "js_le (fl x) (fl y)"
proof -
  have m: "nearest x \<le> nearest y"
    using assms by (rule nearest_mono)
  show ?thesis
  proof (cases x rule: fl_cases)
    case fin
    show ?thesis
    proof (cases y rule: fl_cases)
      case fin
      then show ?thesis
        using \<open>fl x = Fin (nearest x)\<close> m by simp
    next
      case pos
      then show ?thesis
        using \<open>fl x = Fin (nearest x)\<close> by simp
    next
      case neg
      then show ?thesis
        using fin m by linarith
    qed
  next
    case pos
    then have "2 ^ 1024 \<le> nearest y"
      using m by linarith
    then have "fl y = PosInf"
      by (simp add: fl_def)
    then show ?thesis
      using pos by simp
  next
    case neg
    then show ?thesis
      by (cases y rule: fl_cases) simp_all
  qed
qed

lemma js_le_trans: "js_le a b \<Longrightarrow> js_le b c \<Longrightarrow> js_le a c"
  by (cases a; cases b; cases c) simp_all

lemma js_le_refl: "a \<noteq> NaN \<Longrightarrow> js_le a a"
  by (cases a) simp_all


lemma Math_floor_mono: "js_le a b \<Longrightarrow> js_le (Math_floor a) (Math_floor b)"
  by (cases a; cases b) (simp_all add: floor_mono)

lemma grid_exp_eval:
  fixes x :: real
  assumes "2 ^ k \<le> \<bar>x\<bar>" "\<bar>x\<bar> < 2 ^ Suc k"
  shows "grid_exp x = int k - 52"
proof -
  have x0: "0 < \<bar>x\<bar>"
    by (rule less_le_trans [OF _ assms(1)]) simp
  have "real k \<le> log 2 \<bar>x\<bar>"
    using assms(1) x0 by (simp add: le_log_iff powr_realpow)
  moreover have "log 2 \<bar>x\<bar> < real (Suc k)"
  proof -
    have "(2::real) powr real (Suc k) = 2 ^ Suc k"
      by (rule powr_realpow) simp
    then have "\<bar>x\<bar> < 2 powr real (Suc k)"
      using assms(2) by (simp only:)
    then show ?thesis
      using x0 by (subst log_less_iff) simp_all
  qed
  ultimately have "\<lfloor>log 2 \<bar>x\<bar>\<rfloor> = int k"
    by (intro floor_unique) simp_all
  then show ?thesis
    by (simp add: grid_exp_def)
qed

lemma nearest_eval_small:
  fixes x :: real
  assumes "2 ^ k \<le> \<bar>x\<bar>" "\<bar>x\<bar> < 2 ^ Suc k" "k \<le> 52"
  shows "nearest x = of_int (round_even (x * 2 ^ (52 - k))) / 2 ^ (52 - k)"
proof -
  have x0: "x \<noteq> 0"
    using less_le_trans [OF _ assms(1), of 0] by auto
  have E: "grid_exp x = - int (52 - k)"
    using grid_exp_eval [OF assms(1,2)] assms(3) by simp
  have p: "2 powr of_int (grid_exp x) = 1 / (2::real) ^ (52 - k)"
    unfolding E by (simp add: powr_minus powr_realpow inverse_eq_divide)
  show ?thesis
    using x0 by (simp add: nearest_def p)
qed

lemma nearest_eval_large:
  fixes x :: real
  assumes "2 ^ k \<le> \<bar>x\<bar>" "\<bar>x\<bar> < 2 ^ Suc k" "52 \<le> k"
  shows "nearest x = of_int (round_even (x / 2 ^ (k - 52))) * 2 ^ (k - 52)"
proof -
  have x0: "x \<noteq> 0"
    using less_le_trans [OF _ assms(1), of 0] by auto
  have "grid_exp x = int (k - 52)"
    using grid_exp_eval [OF assms(1,2)] assms(3) by simp
  then show ?thesis
    using x0 by (simp add: nearest_def powr_realpow)
qed

lemma fl_big_plus_12: "fl (2 ^ 60 + 12) = Fin (2 ^ 60)"
proof -
  have "nearest (2 ^ 60 + 12)
      = of_int (round_even ((2 ^ 60 + 12) / 2 ^ (60 - 52))) * 2 ^ (60 - 52)"
    by (rule nearest_eval_large) simp_all
  also have "\<dots> = 2 ^ 60"
    by (simp add: round_even_def)
  finally have "nearest (2 ^ 60 + 12) = 2 ^ 60" .
  moreover have "\<bar>(2::real) ^ 60\<bar> < 2 ^ 1024"
    by simp
  ultimately show ?thesis
    by (simp only: fl_Fin_iff simp_thms)
qed

lemma nearest_twice:
  assumes "nearest x = x"
  shows "nearest (2 * x) = 2 * x"
proof -
  obtain n E where g: "nearest x = of_int n * 2 powr of_int E" "\<bar>n\<bar> \<le> 2 ^ 53" "- 1074 \<le> E"
    using nearest_grid [of x] by blast
  have "2 * x = of_int n * 2 powr of_int (E + 1)"
    using g(1) assms by (simp add: powr_add)
  moreover have "- 1074 \<le> E + 1"
    using g(3) by simp
  ultimately show ?thesis
    using nearest_grid_fixed [OF g(2), of "E + 1"] by simp
qed

lemmas fl_simps = fl_numeral fl_neg_numeral

lemma fl_quarters:
  "fl (5 / 4) = Fin (5 / 4)" "fl (5 / 2) = Fin (5 / 2)" "fl (3 / 2) = Fin (3 / 2)"
  "fl (1 / 4) = Fin (1 / 4)" "fl (1 / 2) = Fin (1 / 2)" "fl (- (1 / 2)) = Fin (- (1 / 2))"
  using fl_dyadic [of 5 2] fl_dyadic [of 5 1] fl_dyadic [of 3 1] fl_dyadic [of 1 2]
    fl_dyadic [of 1 1] fl_dyadic [of "- 1" 1]
  by simp_all

lemma fl_integral:
  assumes "x \<in> \<int>" "\<bar>x\<bar> \<le> 2 ^ 53"
  shows "fl x = Fin x"
proof -
  obtain k where k: "x = of_int k"
    using assms(1) by (auto elim: Ints_cases)
  have "real_of_int \<bar>k\<bar> \<le> real_of_int (2 ^ 53)"
    using assms(2) by (simp add: k)
  then have "\<bar>k\<bar> \<le> 2 ^ 53"
    by (simp only: of_int_le_iff)
  then show ?thesis
    unfolding k by (rule fl_of_int)
qed

lemma stable_js_add [simp]: "stable (js_add a b)"
  by (cases a; cases b) simp_all

lemma stable_js_mul [simp]: "stable (js_mul a b)"
  by (cases a; cases b) simp_all

lemma stable_unit_of [simp]: "stable (unit_of options n)"
  by (simp add: unit_of_def)

lemma js_sub_zero: "stable a \<Longrightarrow> js_sub a (Fin 0) = a"
  by (cases a) (simp_all add: js_sub_def)

subsection \<open>The loop of the compiler as a recursion\<close>

lemma unit_of_round [simp]: "unit_of options (round_coeff n) = unit_of options n"
  by (simp add: unit_of_def round_coeff_def)

lemma restAfter_round [simp]: "restAfter (round_coeff n) = restAfter n"
  by (simp add: round_coeff_def)

lemma coeff_round [simp]: "coeff (round_coeff n) = parseFloat_toFixed2 (coeff n)"
  by (simp add: round_coeff_def)

lemma cursor_after_round [simp]:
  "cursor_after options c (map round_coeff ns) = cursor_after options c ns"
  by (induction ns arbitrary: c) simp_all

lemma fold_emit_note:
  "i + length ns = len \<Longrightarrow>
   fold (emit_note options len) (zip ns [i ..< i + length ns]) (e, a) =
     (e @ spec_segments options a (map round_coeff ns), cursor_after options a ns)"
proof (induction ns arbitrary: i e a)
  case Nil
  then show ?case by simp
next
  case (Cons x rest)
  have upt: "[i ..< i + length (x # rest)] = i # [Suc i ..< Suc i + length rest]"
    by (subst upt_rec) simp
  have last_iff: "(int i < int len - 1) = (rest \<noteq> [])"
    using Cons.prems by auto
  have step: "Suc i + length rest = len"
    using Cons.prems by simp
  show ?case
    unfolding upt
    apply (simp only: zip_Cons_Cons fold_Cons comp_apply)
    apply (subst emit_note_def)
    apply (simp only: Let_def prod.case last_iff)
    apply (subst Cons.IH [OF step])
    apply (simp add: unit_of_def round_coeff_def)
    done
qed

lemma generateBytebeat_segments:
  "ns \<noteq> [] \<Longrightarrow>
   generateBytebeat ns options = Chain (spec_segments options (Fin 0) (map round_coeff ns))"
  using fold_emit_note [of 0 ns "length ns" options "[]" "Fin 0"]
  by (simp add: generateBytebeat_def)

lemma eval_chain_find:
  "eval_chain segs t =
     (case find (\<lambda>s. guard_holds s t) segs of
        None \<Rightarrow> Fin 0
      | Some s \<Rightarrow> branch_value (seg_value s) t)"
  by (induction segs) simp_all

subsection \<open>The compiler walks the notes with a cursor\<close>

text \<open>
  Claim C1, as written, asks that the sounding segment of a note guards \<open>t * coeff\<close>.
  The source prints \<^verbatim>\<open>parseFloat(note.coeff.toFixed(2))\<close>, the coefficient rounded to
  two decimals: for a single note with coefficient \<open>321 / 256 = 1.25390625\<close> the
  segment carries 1.25, and at \<open>t = 256\<close> the formula gives 320 where the walk with the
  unrounded coefficient gives 321.
\<close>

theorem compile_rounds_counterexample:
  "generateBytebeat [mk_note 60 1 (Fin (321 / 256)) 0] (mk_options 1000 3000)
     = Chain [mk_segment 3000 1000 (Sounding (Fin (5 / 4)))]
   \<and> spec_segments (mk_options 1000 3000) (Fin 0) [mk_note 60 1 (Fin (321 / 256)) 0]
     = [mk_segment 3000 1000 (Sounding (Fin (321 / 256)))]
   \<and> eval_expression
         (generateBytebeat [mk_note 60 1 (Fin (321 / 256)) 0] (mk_options 1000 3000)) 256
     = Fin 320
   \<and> eval_chain
         (spec_segments (mk_options 1000 3000) (Fin 0) [mk_note 60 1 (Fin (321 / 256)) 0]) 256
     = Fin 321"
  by (simp add: generateBytebeat_def emit_note_def mk_note_def mk_options_def mk_segment_def
      toFixed2_def guard_holds_def js_rem_def js_trunc_def js_sub_def unit_of_def js_times_def
      fl_simps fl_quarters)

text \<open>
  Claim C1, amended: for every non-empty note list the compiled expression is the walk
  of the specification (notes in array order, cursor from 0, sounding segment with
  threshold \<open>\<lfloor>cursor + duration * baseUnit - restAfter\<rfloor>\<close>, cursor advanced by
  \<open>duration * baseUnit\<close>, silence segment with threshold \<open>\<lfloor>cursor\<rfloor>\<close> exactly when
  \<open>restAfter > 0\<close> and the note is not the last), every sum, difference and product
  rounded as the language rounds it, over the notes with their coefficients rounded to
  two decimals; and its value at \<open>t\<close> is the value \<open>t * c\<close>, rounded, of the first
  segment whose guard holds, or zero if there is none.
\<close>

theorem compile_walk:
  "ns \<noteq> [] \<Longrightarrow>
   generateBytebeat ns options = Chain (spec_segments options (Fin 0) (map round_coeff ns))
   \<and> eval_expression (generateBytebeat ns options) t =
       (case find (\<lambda>s. guard_holds s t)
               (spec_segments options (Fin 0) (map round_coeff ns)) of
          None \<Rightarrow> Fin 0
        | Some s \<Rightarrow> branch_value (seg_value s) t)"
  by (simp add: generateBytebeat_segments eval_chain_find)

theorem compile_walk_witness:
  "[mk_note 60 1 (Fin (321 / 256)) 200, mk_note 62 2 (Fin (5 / 2)) 200] \<noteq> []
   \<and> generateBytebeat [mk_note 60 1 (Fin (321 / 256)) 200, mk_note 62 2 (Fin (5 / 2)) 200]
        (mk_options 1000 3000)
     = Chain [mk_segment 3000 800 (Sounding (Fin (5 / 4))), mk_segment 3000 1000 Silence,
              mk_segment 3000 2800 (Sounding (Fin (5 / 2)))]
   \<and> eval_expression
         (generateBytebeat [mk_note 60 1 (Fin (321 / 256)) 200, mk_note 62 2 (Fin (5 / 2)) 200]
            (mk_options 1000 3000)) 900 = Fin 0"
  using compile_walk [of "[mk_note 60 1 (Fin (321 / 256)) 200, mk_note 62 2 (Fin (5 / 2)) 200]"
      "mk_options 1000 3000" 900]
  by (simp add: mk_note_def mk_options_def mk_segment_def round_coeff_def
      toFixed2_def guard_holds_def js_rem_def js_trunc_def js_sub_def unit_of_def js_times_def
      fl_simps fl_quarters)

subsection \<open>Pitch to coefficient\<close>

lemma pitch_identity:
  assumes "fl c = Fin c"
  shows "pitchToCoeff (Fin p) (Fin p) (Fin c) = Fin c"
  using assms by (simp add: pitchToCoeff_def js_sub_def)

lemma pitch_octave:
  assumes "\<bar>k\<bar> + 12 \<le> 2 ^ 53"
  shows "pitchToCoeff (js_add (Fin (of_int k)) (Fin 12)) (Fin (of_int k)) (Fin c)
      = js_mul (Fin 2) (Fin c)"
proof -
  have "\<bar>k + 12\<bar> \<le> 2 ^ 53"
    using assms by linarith
  then have "fl (of_int (k + 12)) = Fin (of_int (k + 12))"
    by (rule fl_of_int)
  then have a: "js_add (Fin (of_int k)) (Fin 12) = Fin (of_int k + 12)"
    by simp
  have b: "js_sub (Fin (of_int k + 12)) (Fin (of_int k)) = Fin 12"
    by (simp add: js_sub_def fl_simps)
  have c: "Math_pow2 (js_div_12 (Fin 12)) = Fin 2"
    by (simp add: fl_simps)
  show ?thesis
    unfolding pitchToCoeff_def a b c by (simp add: mult.commute)
qed

text \<open>
  Claim C7, as written, asks that an octave doubles the coefficient for every pitch.
  At the pitch \<open>2 ^ 60\<close> adding 12 changes nothing, the doubles there being 256 apart:
  the difference of the pitches is 0 and the coefficient stays 1, where twice the base
  coefficient is 2.
\<close>

theorem pitchToCoeff_octave_counterexample:
  "pitchToCoeff (js_add (Fin (2 ^ 60)) (Fin 12)) (Fin (2 ^ 60)) (Fin 1) = Fin 1
   \<and> js_mul (Fin 2) (Fin 1) = Fin 2"
proof -
  have "fl 1152921504606846988 = Fin 1152921504606846976"
    using fl_big_plus_12 by simp
  then show ?thesis
    by (simp add: pitchToCoeff_def js_sub_def fl_simps)
qed

text \<open>
  Claim C7, amended: for every finite pitch \<open>p\<close> and every coefficient \<open>c\<close> that is a
  double, \<open>pitchToCoeff p p c = c\<close>; for every integer pitch \<open>k\<close> with
  \<open>\<bar>k\<bar> + 12 \<le> 2 ^ 53\<close>, the coefficient at \<open>k + 12\<close> relative to \<open>k\<close> is \<open>2 * c\<close>
  as the language computes it, which is exactly \<open>2 * c\<close> when \<open>c\<close> is a double and
  \<open>2 * c\<close> does not overflow; and the function is the equal-tempered formula
  \<open>c * 2 ^ ((p - b) / 12)\<close> with each operation rounded.
\<close>

theorem pitchToCoeff_identity_octave:
  "(fl c = Fin c \<longrightarrow> pitchToCoeff (Fin p) (Fin p) (Fin c) = Fin c)
   \<and> (\<bar>k\<bar> + 12 \<le> 2 ^ 53 \<longrightarrow>
        pitchToCoeff (js_add (Fin (of_int k)) (Fin 12)) (Fin (of_int k)) (Fin c)
          = js_mul (Fin 2) (Fin c))
   \<and> (\<bar>k\<bar> + 12 \<le> 2 ^ 53 \<and> fl c = Fin c \<and> \<bar>2 * c\<bar> < 2 ^ 1024 \<longrightarrow>
        pitchToCoeff (js_add (Fin (of_int k)) (Fin 12)) (Fin (of_int k)) (Fin c)
          = Fin (2 * c))
   \<and> pitchToCoeff a b d = js_mul d (Math_pow2 (js_div_12 (js_sub a b)))"
proof -
  have exact: "js_mul (Fin 2) (Fin c) = Fin (2 * c)"
    if "fl c = Fin c" "\<bar>2 * c\<bar> < 2 ^ 1024"
  proof -
    have "nearest c = c"
      using that(1) by (simp add: fl_Fin_iff)
    then have "nearest (2 * c) = 2 * c"
      by (rule nearest_twice)
    then show ?thesis
      using that(2) by (simp add: fl_exact)
  qed
  show ?thesis
    using pitch_identity [of c p] pitch_octave [of k c] exact
    by (auto simp: pitchToCoeff_def)
qed

theorem pitchToCoeff_identity_octave_witness:
  "fl 1 = Fin 1 \<and> \<bar>60 :: int\<bar> + 12 \<le> 2 ^ 53 \<and> \<bar>2 * 1 :: real\<bar> < 2 ^ 1024
   \<and> pitchToCoeff (Fin 60) (Fin 60) (Fin 1) = Fin 1
   \<and> pitchToCoeff (js_add (Fin (of_int 60)) (Fin 12)) (Fin (of_int 60)) (Fin 1) = Fin (2 * 1)"
  using pitchToCoeff_identity_octave [of 1 60 60 "Fin 0" "Fin 0" "Fin 0"]
  by (simp add: fl_simps)

subsection \<open>No notes\<close>

text \<open>
  Claim C8: for the empty note list the compiler returns the expression \<^verbatim>\<open>0\<close>, which
  is zero at every time.
\<close>

theorem empty_notes_zero:
  "generateBytebeat [] options = Zero \<and> eval_expression (generateBytebeat [] options) t = Fin 0"
  by (simp add: generateBytebeat_def)

subsection \<open>The low byte and the sample\<close>

lemma and_255_mod: "and (k::int) 255 = k mod 256"
proof -
  have "(255::int) = mask 8"
    by (simp add: mask_eq_exp_minus_1)
  then have "and k 255 = take_bit 8 k"
    by (simp add: take_bit_eq_mask)
  then show ?thesis
    by (simp add: take_bit_eq_mod)
qed

lemma wrap_mod:
  fixes n b c h :: int
  assumes "c dvd b"
  shows "(if h \<le> n mod b then n mod b - b else n mod b) mod c = n mod c"
proof -
  have a: "n mod b mod c = n mod c"
    using assms by (rule mod_mod_cancel)
  have "b mod c = 0"
    using assms by simp
  then have "(n mod b - b) mod c = (n mod b - 0) mod c"
    by (metis mod_diff_right_eq)
  then show ?thesis
    using a by simp
qed

lemma dvd_256: "(256::int) dvd 2 ^ 32"
proof -
  have "(2::int) ^ 8 dvd 2 ^ 32"
    by (rule le_imp_power_dvd) simp
  then show ?thesis
    by simp
qed

lemma rawByte_Fin: "rawByte (Fin x) = js_trunc x mod 256"
  by (simp only: rawByte_def toInt32.simps Let_def and_255_mod wrap_mod [OF dvd_256])

lemma rawByte_range: "0 \<le> rawByte v \<and> rawByte v < 256"
  by (cases v) (simp_all add: rawByte_Fin, simp_all add: rawByte_def)

lemma js_trunc_of_int: "js_trunc (of_int k) = k"
  by (simp add: js_trunc_def)

text \<open>
  Claim C3: the callback takes the low byte of the raw value, a number from 0 to 255
  that is the raw value cut to an integer, modulo 256 (the raw value modulo 256 when it
  is an integer), and writes \<open>byte / 128 - 1\<close>, which lies in \<open>[-1, 1)\<close>.
\<close>

theorem low_byte_sample:
  "0 \<le> rawByte v \<and> rawByte v < 256
   \<and> rawByte (Fin x) = js_trunc x mod 256
   \<and> rawByte (Fin (of_int k)) = k mod 256
   \<and> sample_of v = of_int (rawByte v) / 128 - 1
   \<and> - 1 \<le> sample_of v \<and> sample_of v < 1
   \<and> fst (renderSample st) = sample_of (eval_expression (func st) \<lfloor>virtualT st\<rfloor>)
   \<and> - 1 \<le> fst (renderSample st) \<and> fst (renderSample st) < 1"
proof -
  have s: "- 1 \<le> sample_of w \<and> sample_of w < 1" for w
  proof -
    have "(0::real) \<le> of_int (rawByte w)" "real_of_int (rawByte w) < 256"
      using rawByte_range [of w] by simp_all
    then show ?thesis
      by (simp add: sample_of_def)
  qed
  have f: "fst (renderSample st) = sample_of (eval_expression (func st) \<lfloor>virtualT st\<rfloor>)"
    by (simp add: renderSample_def Let_def sample_time_def)
  show ?thesis
    using rawByte_range [of v] s [of v] s [of "eval_expression (func st) \<lfloor>virtualT st\<rfloor>"] f
    by (simp add: rawByte_Fin js_trunc_of_int sample_of_def)
qed

subsection \<open>The model at the doubles written 0.3 and 8.37\<close>

text \<open>
  The double written 0.3 is \<open>5404319552844595 / 2 ^ 54\<close>, a little below 0.3; times
  8000 it rounds to 2400. The double written 8.37 is \<open>4711891110136381 / 2 ^ 49\<close>; it
  prints as 8.37 and reads back as itself, and 100 times it rounds to
  \<open>7362329859588095 / 2 ^ 43\<close>, a little below 837, with low byte 68.
\<close>

lemma unit_of_three_tenths: "fl (5404319552844595 / 2 ^ 54 * 8000) = Fin 2400"
proof -
  have "nearest (5404319552844595 / 2 ^ 54 * 8000)
      = of_int (round_even (5404319552844595 / 2 ^ 54 * 8000 * 2 ^ (52 - 11))) / 2 ^ (52 - 11)"
    by (rule nearest_eval_small) simp_all
  also have "\<dots> = 2400"
    by (simp add: round_even_def)
  finally show ?thesis
    by (simp add: fl_Fin_iff)
qed

lemma times_837_at_100:
  "js_times 100 (Fin (4711891110136381 / 2 ^ 49)) = Fin (7362329859588095 / 2 ^ 43)"
proof -
  have "nearest (100 * (4711891110136381 / 2 ^ 49))
      = of_int (round_even (100 * (4711891110136381 / 2 ^ 49) * 2 ^ (52 - 9))) / 2 ^ (52 - 9)"
    by (rule nearest_eval_small) simp_all
  also have "\<dots> = 7362329859588095 / 2 ^ 43"
    by (simp add: round_even_def)
  finally show ?thesis
    by (simp add: js_times_def fl_Fin_iff)
qed

lemma byte_837_at_100: "rawByte (Fin (7362329859588095 / 2 ^ 43)) = 68"
  by (simp add: rawByte_Fin js_trunc_def)

lemma parse_837: "parseFloat_toFixed2 (Fin (4711891110136381 / 2 ^ 49)) = Fin (4711891110136381 / 2 ^ 49)"
proof -
  have t: "toFixed2 (4711891110136381 / 562949953421312) = 837 / 100"
    by (simp add: toFixed2_def)
  have "nearest (837 / 100)
      = of_int (round_even (837 / 100 * 2 ^ (52 - 3))) / 2 ^ (52 - 3)"
    by (rule nearest_eval_small) simp_all
  also have "\<dots> = 4711891110136381 / 2 ^ 49"
    by (simp add: round_even_def)
  finally show ?thesis
    by (simp add: t fl_Fin_iff)
qed

subsection \<open>The end-to-end scenario\<close>

lemma scenario_compiled:
  "generateBytebeat scenario_notes (mk_options 1000 3000) =
     Chain [mk_segment 3000 1000 (Sounding (Fin 1)), mk_segment 3000 2000 (Sounding (Fin 2)),
            mk_segment 3000 3000 (Sounding (Fin 1))]"
  by (simp add: scenario_notes_def transposedNotes_def generateBytebeat_def emit_note_def
      mk_note_def mk_options_def mk_segment_def pitchToCoeff_def toFixed2_def js_sub_def
      Let_def fl_simps)

text \<open>
  Claim C9: pitches 60, 72, 60, each of duration 1 with no rest, base unit 1000, period
  3000, base pitch 60 and base coefficient 1 compile to thresholds 1000, 2000, 3000
  with coefficients 1, 2, 1. At \<open>t = 500\<close> the raw value is 500, the byte 244 and the
  sample \<open>244 / 128 - 1\<close>, about 0.906; at \<open>t = 1500\<close> the raw value is 3000, the
  byte 184 and the sample 0.4375.
\<close>

theorem end_to_end_scenario:
  "generateBytebeat scenario_notes (mk_options 1000 3000) =
     Chain [mk_segment 3000 1000 (Sounding (Fin 1)), mk_segment 3000 2000 (Sounding (Fin 2)),
            mk_segment 3000 3000 (Sounding (Fin 1))]
   \<and> thresholds (generateBytebeat scenario_notes (mk_options 1000 3000))
       = [Fin 1000, Fin 2000, Fin 3000]
   \<and> eval_expression (generateBytebeat scenario_notes (mk_options 1000 3000)) 500 = Fin 500
   \<and> rawByte (Fin 500) = 244
   \<and> sample_of (Fin 500) = 244 / 128 - 1
   \<and> \<bar>sample_of (Fin 500) - 0.906\<bar> < 0.001
   \<and> eval_expression (generateBytebeat scenario_notes (mk_options 1000 3000)) 1500 = Fin 3000
   \<and> rawByte (Fin 3000) = 184
   \<and> sample_of (Fin 3000) = 0.4375"
proof -
  have a: "rawByte (Fin 500) = 244" "rawByte (Fin 3000) = 184"
    by (simp_all add: rawByte_Fin js_trunc_def)
  have b: "sample_of (Fin 500) = 244 / 128 - 1" "sample_of (Fin 3000) = 0.4375"
    by (simp_all add: sample_of_def a)
  have c: "\<bar>sample_of (Fin 500) - 0.906\<bar> < 0.001"
    by (simp add: b)
  have e: "eval_expression (generateBytebeat scenario_notes (mk_options 1000 3000)) 500 = Fin 500"
    "eval_expression (generateBytebeat scenario_notes (mk_options 1000 3000)) 1500 = Fin 3000"
    by (simp_all add: scenario_compiled mk_segment_def guard_holds_def js_rem_def js_trunc_def
        js_times_def fl_simps)
  have t: "thresholds (generateBytebeat scenario_notes (mk_options 1000 3000))
      = [Fin 1000, Fin 2000, Fin 3000]"
    by (simp add: scenario_compiled mk_segment_def)
  show ?thesis
    by (intro conjI scenario_compiled t e a b c)
qed

subsection \<open>The accumulator\<close>


lemma renderSample_fields:
  "func (snd (renderSample st)) = func st"
  "ratio (snd (renderSample st)) = ratio st"
  "period (snd (renderSample st)) = period st"
  "virtualT (snd (renderSample st)) =
     (if period st \<le> virtualT st + ratio st then 0 else virtualT st + ratio st)"
  by (simp_all add: renderSample_def Let_def)

lemma after_frames_0: "after_frames 0 st = st"
  by (simp add: after_frames_def)

lemma after_frames_Suc: "after_frames (Suc n) st = after_frames n (snd (renderSample st))"
  by (simp add: after_frames_def split: prod.splits)


text \<open>
  Claim C2: when the accumulator reaches or passes the period after a step it is set to
  0, not reduced by the period: the next time evaluated is 0, the next sample is the
  formula at 0, and whatever the accumulator had beyond the period is gone.
\<close>

theorem accumulator_hard_reset:
  "period st \<le> virtualT st + ratio st \<Longrightarrow>
   virtualT (snd (renderSample st)) = 0
   \<and> sample_time (snd (renderSample st)) = 0
   \<and> fst (renderSample (snd (renderSample st))) = sample_of (eval_expression (func st) 0)
   \<and> (period st < virtualT st + ratio st \<longrightarrow>
        virtualT (snd (renderSample st)) \<noteq> virtualT st + ratio st - period st)"
  by (simp add: renderSample_def Let_def sample_time_def)

theorem accumulator_hard_reset_witness:
  "period (startPlayback Zero (mk_options 1000 3) 4000)
     \<le> virtualT (after_frames 1 (startPlayback Zero (mk_options 1000 3) 4000))
        + ratio (startPlayback Zero (mk_options 1000 3) 4000)
   \<and> virtualT (after_frames 1 (startPlayback Zero (mk_options 1000 3) 4000)) = 2
   \<and> virtualT (after_frames 2 (startPlayback Zero (mk_options 1000 3) 4000)) = 0
   \<and> 2 + ratio (startPlayback Zero (mk_options 1000 3) 4000)
       - period (startPlayback Zero (mk_options 1000 3) 4000) = 1"
  using accumulator_hard_reset [of "after_frames 1 (startPlayback Zero (mk_options 1000 3) 4000)"]
  by (simp add: eval_nat_numeral after_frames_Suc after_frames_0 renderSample_fields
      startPlayback_def mk_options_def)



subsection \<open>Thresholds without rests\<close>

lemma thresholds_no_rest:
  "\<forall>n\<in>set ns. restAfter n = 0 \<Longrightarrow>
   map seg_threshold (spec_segments options c (map round_coeff ns)) =
     map Math_floor (js_cumulative c (map (unit_of options) ns))"
  by (induction ns arbitrary: c) (simp_all add: js_sub_zero)

lemma unit_of_nonneg:
  assumes "0 \<le> duration n * baseUnit options"
  shows "js_le (Fin 0) (unit_of options n)"
  using fl_mono [OF assms] by (simp add: unit_of_def)

lemma js_add_nonneg:
  assumes "stable a" "js_le (Fin 0) a" "js_le (Fin 0) u"
  shows "js_le a (js_add a u)"
proof (cases a)
  case (Fin x)
  then have x: "fl x = Fin x"
    using assms(1) by simp
  show ?thesis
  proof (cases u)
    case (Fin v)
    then have "x \<le> x + v"
      using assms(3) by simp
    then have "js_le (fl x) (fl (x + v))"
      by (rule fl_mono)
    then show ?thesis
      using x \<open>a = Fin x\<close> Fin by simp
  next
    case PosInf
    then show ?thesis
      using \<open>a = Fin x\<close> by simp
  qed (use assms(3) in simp_all)
next
  case PosInf
  then show ?thesis
    using assms(3) by (cases u) simp_all
qed (use assms(2) in simp_all)

lemma js_cumulative_lower:
  "stable c \<Longrightarrow> js_le (Fin 0) c \<Longrightarrow> \<forall>u\<in>set us. js_le (Fin 0) u \<Longrightarrow>
   \<forall>y\<in>set (js_cumulative c us). js_le c y"
proof (induction us arbitrary: c)
  case Nil
  show ?case by simp
next
  case (Cons u us)
  let ?c = "js_add c u"
  have u: "js_le (Fin 0) u"
    using Cons.prems(3) by simp
  have step: "js_le c ?c"
    using Cons.prems(1,2) u by (rule js_add_nonneg)
  then have nn: "js_le (Fin 0) ?c"
    using Cons.prems(2) js_le_trans by blast
  have "\<forall>y\<in>set (js_cumulative ?c us). js_le ?c y"
    using Cons.IH [of ?c] nn Cons.prems(3) by simp
  then have "\<forall>y\<in>set (js_cumulative ?c us). js_le c y"
    using step js_le_trans by blast
  then show ?case
    using step by simp
qed

lemma js_cumulative_sorted:
  "stable c \<Longrightarrow> js_le (Fin 0) c \<Longrightarrow> \<forall>u\<in>set us. js_le (Fin 0) u \<Longrightarrow>
   sorted_wrt js_le (map Math_floor (js_cumulative c us))"
proof (induction us arbitrary: c)
  case Nil
  show ?case by simp
next
  case (Cons u us)
  let ?c = "js_add c u"
  have u: "js_le (Fin 0) u"
    using Cons.prems(3) by simp
  have step: "js_le c ?c"
    using Cons.prems(1,2) u by (rule js_add_nonneg)
  then have nn: "js_le (Fin 0) ?c"
    using Cons.prems(2) js_le_trans by blast
  have "\<forall>y\<in>set (js_cumulative ?c us). js_le ?c y"
    using js_cumulative_lower [of ?c us] nn Cons.prems(3) by simp
  then have "\<forall>y\<in>set (js_cumulative ?c us). js_le (Math_floor ?c) (Math_floor y)"
    using Math_floor_mono by blast
  moreover have "sorted_wrt js_le (map Math_floor (js_cumulative ?c us))"
    using Cons.IH [of ?c] nn Cons.prems(3) by simp
  ultimately show ?case
    by simp
qed

lemma cumulative_strict:
  "\<forall>x\<in>set xs. 0 < x \<Longrightarrow>
   (\<forall>y\<in>set (cumulative c xs). c < y) \<and> sorted_wrt (<) (cumulative c xs)"
proof (induction xs arbitrary: c)
  case Nil
  show ?case by simp
next
  case (Cons x xs)
  have ih: "(\<forall>y\<in>set (cumulative (c + x) xs). c + x < y) \<and> sorted_wrt (<) (cumulative (c + x) xs)"
    using Cons.IH [of "c + x"] Cons.prems by simp
  have x: "0 < x"
    using Cons.prems by simp
  then have "\<forall>y\<in>set (cumulative (c + x) xs). c < y"
    using ih by fastforce
  then show ?case
    using ih x by simp
qed

lemma js_cumulative_exact:
  "\<forall>x\<in>set xs. x \<in> \<int> \<and> 0 < x \<Longrightarrow> c \<in> \<int> \<Longrightarrow> 0 \<le> c \<Longrightarrow> c + sum_list xs \<le> 2 ^ 53 \<Longrightarrow>
   map Math_floor (js_cumulative (Fin c) (map fl xs)) = map Fin (cumulative c xs)"
proof (induction xs arbitrary: c)
  case Nil
  show ?case by simp
next
  case (Cons x xs)
  have pos: "\<forall>y\<in>set xs. 0 \<le> y"
    using Cons.prems(1) by fastforce
  then have rest: "0 \<le> sum_list xs"
    by (intro sum_list_nonneg) simp
  have x: "x \<in> \<int>" "0 < x"
    using Cons.prems(1) by simp_all
  have bound: "c + x + sum_list xs \<le> 2 ^ 53"
    using Cons.prems(4) by (simp add: add.assoc)
  have "\<bar>x\<bar> \<le> 2 ^ 53"
    using bound rest x(2) Cons.prems(3) by linarith
  then have fx: "fl x = Fin x"
    using x(1) by (intro fl_integral)
  have cx: "c + x \<in> \<int>" "0 \<le> c + x"
    using x Cons.prems(2,3) by simp_all
  have "\<bar>c + x\<bar> \<le> 2 ^ 53"
    using bound rest cx(2) by linarith
  then have fs: "fl (c + x) = Fin (c + x)"
    using cx(1) by (intro fl_integral)
  have fl_int: "real_of_int \<lfloor>c + x\<rfloor> = c + x"
    using cx(1) by (rule of_int_floor)
  have tail: "\<forall>y\<in>set xs. y \<in> \<int> \<and> 0 < y"
    using Cons.prems(1) by simp
  have ih: "map Math_floor (js_cumulative (Fin (c + x)) (map fl xs)) = map Fin (cumulative (c + x) xs)"
    using tail cx bound by (rule Cons.IH)
  have "js_cumulative (Fin c) (map fl (x # xs))
      = Fin (c + x) # js_cumulative (Fin (c + x)) (map fl xs)"
    by (simp add: fx fs)
  then have "map Math_floor (js_cumulative (Fin c) (map fl (x # xs)))
      = Fin (real_of_int \<lfloor>c + x\<rfloor>) # map Fin (cumulative (c + x) xs)"
    by (simp only: list.map Math_floor.simps ih)
  then show ?case
    by (simp only: fl_int cumulative.simps list.map)
qed

lemma units_fl: "map (unit_of options) ns = map fl (sounding_units options ns)"
  by (simp add: unit_of_def sounding_units_def)

text \<open>
  Claim C6, as written, asks that without rests the thresholds are the running sums of
  \<open>duration * baseUnit\<close> and strictly increase. The source takes \<^verbatim>\<open>Math.floor\<close>
  of each sum: two notes of duration 0.25 with base unit 1 have the sums 0.25 and 0.5
  and the thresholds 0 and 0.
\<close>

theorem thresholds_cumulative_counterexample:
  "restAfter (mk_note 60 (1 / 4) (Fin 1) 0) = 0
   \<and> thresholds (generateBytebeat [mk_note 60 (1 / 4) (Fin 1) 0, mk_note 60 (1 / 4) (Fin 1) 0]
        (mk_options 1 10)) = [Fin 0, Fin 0]
   \<and> cumulative 0 (sounding_units (mk_options 1 10)
        [mk_note 60 (1 / 4) (Fin 1) 0, mk_note 60 (1 / 4) (Fin 1) 0]) = [1 / 4, 1 / 2]
   \<and> \<not> sorted_wrt (<) [0 :: real, 0]"
  by (simp add: generateBytebeat_def emit_note_def mk_note_def mk_options_def
      sounding_units_def js_sub_def fl_quarters)

text \<open>
  Claim C6, amended: when every note has \<open>restAfter = 0\<close>, the thresholds are the
  floors of the running sums of \<open>duration * baseUnit\<close>, in order, each product and each
  sum rounded as the language rounds it; they are non-decreasing when no
  \<open>duration * baseUnit\<close> is negative; and when every \<open>duration * baseUnit\<close> is a
  positive integer and their total is at most \<open>2 ^ 53\<close>, they are the exact running
  sums and strictly increase.
\<close>

theorem thresholds_cumulative:
  assumes "\<forall>n\<in>set ns. restAfter n = 0"
  shows "thresholds (generateBytebeat ns options)
           = map Math_floor (js_cumulative (Fin 0) (map (unit_of options) ns))
   \<and> ((\<forall>n\<in>set ns. 0 \<le> duration n * baseUnit options) \<longrightarrow>
         sorted_wrt js_le (thresholds (generateBytebeat ns options)))
   \<and> ((\<forall>n\<in>set ns. duration n * baseUnit options \<in> \<int> \<and> 0 < duration n * baseUnit options)
        \<and> sum_list (sounding_units options ns) \<le> 2 ^ 53 \<longrightarrow>
         thresholds (generateBytebeat ns options)
           = map Fin (cumulative 0 (sounding_units options ns))
         \<and> sorted_wrt (<) (cumulative 0 (sounding_units options ns)))"
proof -
  let ?ths = "thresholds (generateBytebeat ns options)"
  let ?cum = "js_cumulative (Fin 0) (map (unit_of options) ns)"
  have t: "?ths = map Math_floor ?cum"
  proof (cases "ns = []")
    case True
    then show ?thesis
      by (simp add: generateBytebeat_def)
  next
    case False
    then show ?thesis
      using thresholds_no_rest [OF assms, of options "Fin 0"]
      by (simp add: generateBytebeat_segments)
  qed
  have s: "sorted_wrt js_le ?ths"
    if h: "\<forall>n\<in>set ns. 0 \<le> duration n * baseUnit options"
  proof -
    have "\<forall>u\<in>set (map (unit_of options) ns). js_le (Fin 0) u"
      using h by (simp add: unit_of_nonneg)
    then have "sorted_wrt js_le (map Math_floor ?cum)"
      by (intro js_cumulative_sorted) simp_all
    then show ?thesis
      by (simp only: t)
  qed
  have i: "?ths = map Fin (cumulative 0 (sounding_units options ns))
      \<and> sorted_wrt (<) (cumulative 0 (sounding_units options ns))"
    if h: "\<forall>n\<in>set ns. duration n * baseUnit options \<in> \<int> \<and> 0 < duration n * baseUnit options"
      and b: "sum_list (sounding_units options ns) \<le> 2 ^ 53"
  proof -
    have u: "\<forall>x\<in>set (sounding_units options ns). x \<in> \<int> \<and> 0 < x"
      using h by (simp add: sounding_units_def)
    have "map Math_floor (js_cumulative (Fin 0) (map fl (sounding_units options ns)))
        = map Fin (cumulative 0 (sounding_units options ns))"
      using u b by (intro js_cumulative_exact) simp_all
    then have "?ths = map Fin (cumulative 0 (sounding_units options ns))"
      by (simp only: t units_fl)
    moreover have "sorted_wrt (<) (cumulative 0 (sounding_units options ns))"
      using u cumulative_strict [of "sounding_units options ns" 0] by blast
    ultimately show ?thesis
      by (rule conjI)
  qed
  show ?thesis
  proof (intro conjI impI)
    show "?ths = map Math_floor ?cum"
      by (rule t)
  next
    assume "\<forall>n\<in>set ns. 0 \<le> duration n * baseUnit options"
    then show "sorted_wrt js_le ?ths"
      by (rule s)
  next
    assume h: "(\<forall>n\<in>set ns. duration n * baseUnit options \<in> \<int> \<and> 0 < duration n * baseUnit options)
        \<and> sum_list (sounding_units options ns) \<le> 2 ^ 53"
    show "?ths = map Fin (cumulative 0 (sounding_units options ns))"
      using i h by blast
  next
    assume h: "(\<forall>n\<in>set ns. duration n * baseUnit options \<in> \<int> \<and> 0 < duration n * baseUnit options)
        \<and> sum_list (sounding_units options ns) \<le> 2 ^ 53"
    show "sorted_wrt (<) (cumulative 0 (sounding_units options ns))"
      using i h by blast
  qed
qed

theorem thresholds_cumulative_witness:
  "restAfter (mk_note 60 1 (Fin 1) 0) = 0 \<and> restAfter (mk_note 62 2 (Fin 2) 0) = 0
   \<and> duration (mk_note 60 1 (Fin 1) 0) * baseUnit (mk_options 1000 3000) = of_int 1000
   \<and> duration (mk_note 62 2 (Fin 2) 0) * baseUnit (mk_options 1000 3000) = of_int 2000
   \<and> sum_list (sounding_units (mk_options 1000 3000)
        [mk_note 60 1 (Fin 1) 0, mk_note 62 2 (Fin 2) 0]) = 3000
   \<and> thresholds (generateBytebeat [mk_note 60 1 (Fin 1) 0, mk_note 62 2 (Fin 2) 0]
        (mk_options 1000 3000)) = [Fin 1000, Fin 3000]
   \<and> cumulative 0 (sounding_units (mk_options 1000 3000)
        [mk_note 60 1 (Fin 1) 0, mk_note 62 2 (Fin 2) 0]) = [1000, 3000]"
  using thresholds_cumulative [of "[mk_note 60 1 (Fin 1) 0, mk_note 62 2 (Fin 2) 0]"
      "mk_options 1000 3000"]
  by (simp add: mk_note_def mk_options_def sounding_units_def unit_of_def fl_simps)

subsection \<open>A rest longer than its note\<close>


lemma eval_chain_quiet:
  "\<forall>s\<in>set segs. \<not> guard_holds s t \<Longrightarrow> eval_chain segs t = Fin 0"
  by (induction segs) simp_all












subsection \<open>No validation of the configuration\<close>

lemma spec_segments_shape:
  "length ns \<le> length (spec_segments options c ns)
   \<and> (\<forall>s\<in>set (spec_segments options c ns). seg_period s = totalPeriod options)
   \<and> (\<forall>n\<in>set ns. \<exists>s\<in>set (spec_segments options c ns). seg_value s = Sounding (coeff n))"
proof (induction ns arbitrary: c)
  case Nil
  show ?case by simp
next
  case (Cons x rest)
  let ?c = "js_add c (unit_of options x)"
  have ih: "length rest \<le> length (spec_segments options ?c rest)"
    "\<forall>s\<in>set (spec_segments options ?c rest). seg_period s = totalPeriod options"
    "\<forall>n\<in>set rest. \<exists>s\<in>set (spec_segments options ?c rest). seg_value s = Sounding (coeff n)"
    using Cons.IH [of ?c] by simp_all
  have a: "length (x # rest) \<le> length (spec_segments options c (x # rest))"
    using ih(1) by simp
  have b: "\<forall>s\<in>set (spec_segments options c (x # rest)). seg_period s = totalPeriod options"
    using ih(2) by auto
  have c: "\<forall>n\<in>set (x # rest).
      \<exists>s\<in>set (spec_segments options c (x # rest)). seg_value s = Sounding (coeff n)"
    using ih(3) by auto
  show ?case
    using a b c by blast
qed

lemma js_trunc_minus: "js_trunc (- x) = - js_trunc x"
  by (simp add: js_trunc_def floor_minus ceiling_minus)

lemma js_rem_minus: "js_rem a (- b) = js_rem a b"
  by (simp add: js_rem_def js_trunc_minus)

lemma guard_holds_negate:
  "guard_holds (s\<lparr>seg_period := - seg_period s\<rparr>) t = guard_holds s t"
  by (simp add: guard_holds_def js_rem_minus)

lemma eval_chain_negate:
  "eval_chain (map (\<lambda>s. s\<lparr>seg_period := - seg_period s\<rparr>) segs) t = eval_chain segs t"
  by (induction segs) (simp_all add: guard_holds_negate)

lemma spec_segments_negate:
  "spec_segments (options\<lparr>totalPeriod := - totalPeriod options\<rparr>) c ns
     = map (\<lambda>s. s\<lparr>seg_period := - seg_period s\<rparr>) (spec_segments options c ns)"
  by (induction ns arbitrary: c) (simp_all add: unit_of_def)

lemma non_finite_sample:
  "\<not> is_finite c \<Longrightarrow>
   parseFloat_toFixed2 c = c \<and> \<not> is_finite (js_times t c) \<and> sample_of (js_times t c) = - 1"
  by (cases c) (simp_all add: sample_of_def rawByte_def js_times_def)

text \<open>
  Claim C4, as written, asks that a non-positive period or a non-finite coefficient is
  rejected with no expression produced. The source has no check and no error result:
  with period 0, with period \<open>-3000\<close> and with coefficient NaN it returns the full
  expression.
\<close>

theorem compile_without_validation_counterexample:
  "totalPeriod (mk_options 1000 0) \<le> 0
   \<and> generateBytebeat [mk_note 60 1 (Fin 1) 0] (mk_options 1000 0)
       = Chain [mk_segment 0 1000 (Sounding (Fin 1))]
   \<and> totalPeriod (mk_options 1000 (- 3000)) \<le> 0
   \<and> generateBytebeat [mk_note 60 1 (Fin 1) 0] (mk_options 1000 (- 3000))
       = Chain [mk_segment (- 3000) 1000 (Sounding (Fin 1))]
   \<and> \<not> is_finite (coeff (mk_note 60 1 NaN 0))
   \<and> generateBytebeat [mk_note 60 1 NaN 0] (mk_options 1000 3000)
       = Chain [mk_segment 3000 1000 (Sounding NaN)]"
  by (simp add: generateBytebeat_def emit_note_def mk_note_def mk_options_def mk_segment_def
      toFixed2_def js_sub_def fl_simps)

text \<open>
  Claim C4, amended: the compiler validates nothing. For every note list and every
  options, also with a non-positive period or a non-finite coefficient, it returns a
  complete expression: \<^verbatim>\<open>0\<close> for no notes, and otherwise a chain with at least one
  segment per note, every segment carrying the period as given and every note's
  coefficient (rounded; NaN and the infinities unchanged) in a sounding segment. A
  non-finite coefficient makes the sample \<open>-1\<close> wherever its segment is chosen; with
  period 0 every guard is false and the formula is zero; a negative period behaves as
  its absolute value.
\<close>

theorem compile_without_validation:
  "(ns = [] \<longrightarrow> generateBytebeat ns options = Zero)
   \<and> (ns \<noteq> [] \<longrightarrow>
        (\<exists>segs. generateBytebeat ns options = Chain segs \<and> length ns \<le> length segs
           \<and> (\<forall>s\<in>set segs. seg_period s = totalPeriod options)
           \<and> (\<forall>n\<in>set ns. \<exists>s\<in>set segs.
                 seg_value s = Sounding (parseFloat_toFixed2 (coeff n)))))
   \<and> (\<not> is_finite c \<longrightarrow>
        parseFloat_toFixed2 c = c \<and> \<not> is_finite (js_times t c)
        \<and> sample_of (js_times t c) = - 1)
   \<and> (totalPeriod options = 0 \<longrightarrow> eval_expression (generateBytebeat ns options) t = Fin 0)
   \<and> eval_expression (generateBytebeat ns (options\<lparr>totalPeriod := - totalPeriod options\<rparr>)) t
       = eval_expression (generateBytebeat ns options) t"
proof -
  let ?segs = "spec_segments options (Fin 0) (map round_coeff ns)"
  have shape: "length ns \<le> length ?segs"
    "\<forall>s\<in>set ?segs. seg_period s = totalPeriod options"
    "\<forall>n\<in>set ns. \<exists>s\<in>set ?segs. seg_value s = Sounding (parseFloat_toFixed2 (coeff n))"
    using spec_segments_shape [of "map round_coeff ns" options "Fin 0"]
    by (simp_all add: round_coeff_def)
  have p1: "ns = [] \<longrightarrow> generateBytebeat ns options = Zero"
    by (simp add: generateBytebeat_def)
  have p2: "ns \<noteq> [] \<longrightarrow>
        (\<exists>segs. generateBytebeat ns options = Chain segs \<and> length ns \<le> length segs
           \<and> (\<forall>s\<in>set segs. seg_period s = totalPeriod options)
           \<and> (\<forall>n\<in>set ns. \<exists>s\<in>set segs.
                 seg_value s = Sounding (parseFloat_toFixed2 (coeff n))))"
    using shape generateBytebeat_segments [of ns options] by blast
  have p3: "\<not> is_finite c \<longrightarrow>
        parseFloat_toFixed2 c = c \<and> \<not> is_finite (js_times t c)
        \<and> sample_of (js_times t c) = - 1"
    using non_finite_sample [of c t] by blast
  have p4: "totalPeriod options = 0 \<longrightarrow> eval_expression (generateBytebeat ns options) t = Fin 0"
  proof (cases "ns = []")
    case True
    then show ?thesis
      by (simp add: generateBytebeat_def)
  next
    case False
    show ?thesis
    proof
      assume "totalPeriod options = 0"
      then have "\<forall>s\<in>set ?segs. \<not> guard_holds s t"
        using shape(2) by (simp add: guard_holds_def)
      then have "eval_chain ?segs t = Fin 0"
        by (rule eval_chain_quiet)
      then show "eval_expression (generateBytebeat ns options) t = Fin 0"
        using False by (simp add: generateBytebeat_segments)
    qed
  qed
  have p5: "eval_expression (generateBytebeat ns (options\<lparr>totalPeriod := - totalPeriod options\<rparr>)) t
       = eval_expression (generateBytebeat ns options) t"
  proof (cases "ns = []")
    case True
    then show ?thesis
      by (simp add: generateBytebeat_def)
  next
    case False
    then show ?thesis
      by (simp add: generateBytebeat_segments spec_segments_negate eval_chain_negate)
  qed
  show ?thesis
    using p1 p2 p3 p4 p5 by (intro conjI)
qed

theorem compile_without_validation_witness:
  "[mk_note 60 1 PosInf 0] \<noteq> []
   \<and> \<not> is_finite PosInf
   \<and> totalPeriod (mk_options 1000 0) = 0
   \<and> generateBytebeat [mk_note 60 1 PosInf 0] (mk_options 1000 0)
       = Chain [mk_segment 0 1000 (Sounding PosInf)]
   \<and> eval_expression (generateBytebeat [mk_note 60 1 PosInf 0] (mk_options 1000 0)) 5 = Fin 0
   \<and> sample_of (js_times 5 PosInf) = - 1"
  using compile_without_validation [of "[mk_note 60 1 PosInf 0]" "mk_options 1000 0" PosInf 5]
  by (simp add: generateBytebeat_def emit_note_def mk_note_def mk_options_def mk_segment_def
      js_sub_def js_times_def fl_simps)

end
